theory Spec2Isabelle
  imports Main "HOL-Library.Sublist"
begin

section \<open>Strings and the library functions the plugin calls\<close>

text \<open>
  A Go string is a sequence of bytes, and so is a HOL \<open>string\<close>. The functions of Go's
  \<open>strings\<close> package that the plugin uses are modelled by their documented results.
\<close>

definition HasPrefix :: "string \<Rightarrow> string \<Rightarrow> bool" where
  "HasPrefix s p = prefix p s"

definition HasSuffix :: "string \<Rightarrow> string \<Rightarrow> bool" where
  "HasSuffix s x = suffix x s"

definition CutPrefix :: "string \<Rightarrow> string \<Rightarrow> string \<times> bool" where
  "CutPrefix s p = (if prefix p s then (drop (length p) s, True) else (s, False))"

text \<open>
  \<open>strings.LastIndex s sep\<close>: the index of the last occurrence of \<open>sep\<close> in \<open>s\<close>, or
  \<open>-1\<close> when there is none. The candidates are tried from the right.
\<close>

definition LastIndex :: "string \<Rightarrow> string \<Rightarrow> int" where
  "LastIndex s sep =
     (case List.find (\<lambda>i. take (length sep) (drop i s) = sep)
             (rev [0 ..< Suc (length s - length sep)]) of
        None \<Rightarrow> - 1
      | Some i \<Rightarrow> int i)"

section \<open>The transport: errors, directory entries, the WebDAV client\<close>

datatype error = ErrNotFound | ErrOther string

definition IsErrNotFound :: "error \<Rightarrow> bool" where
  "IsErrNotFound e = (e = ErrNotFound)"

record fileinfo =
  Name :: string
  IsDir :: bool

text \<open>
  The client of the WebDAV library, over a server state \<open>'s\<close>: connecting and reading a
  directory leave the server as it is, removing a path changes it.
\<close>

record 's Client =
  Connect :: "'s \<Rightarrow> error option"
  ReadDir :: "'s \<Rightarrow> string \<Rightarrow> error + fileinfo list"
  Remove :: "'s \<Rightarrow> string \<Rightarrow> error option \<times> 's"

type_synonym readdir = "string \<Rightarrow> error + fileinfo list"

section \<open>The object store\<close>

text \<open>The logger field is left out: logging has no effect on what an operation returns.\<close>

record WebDAVObjectStore =
  root :: string
  user :: string
  password :: string
  bucketsDir :: string
  logLevel :: string
  delimiter :: string

definition config_get :: "(string \<rightharpoonup> string) \<Rightarrow> string \<Rightarrow> string" where
  "config_get config k = (case config k of None \<Rightarrow> [] | Some v \<Rightarrow> v)"

text \<open>\<open>Init\<close>; \<open>strings.ToUpper\<close> is taken as a parameter.\<close>

definition Init ::
  "(string \<Rightarrow> string) \<Rightarrow> WebDAVObjectStore \<Rightarrow> (string \<rightharpoonup> string) \<Rightarrow> WebDAVObjectStore \<times> error option"
where
  "Init ToUpper w config =
     (let root' = config_get config ''root'';
          user' = config_get config ''user'';
          password' = config_get config ''webDAVPassword'';
          bucketsDir' = config_get config ''bucketsDir'';
          logLevel' = config_get config ''logLevel'';
          delimiter' = config_get config ''delimiter'';
          delimiter' = (if delimiter' = [] then ''/'' else delimiter');
          bucketsDir' = (if bucketsDir' \<noteq> [] \<and> \<not> HasPrefix bucketsDir' ''/''
                         then bucketsDir' @ ''/'' else bucketsDir')
      in (w\<lparr>root := root', user := user', password := password', delimiter := delimiter',
             bucketsDir := bucketsDir', logLevel := ToUpper logLevel'\<rparr>, None))"

definition SplitPathToDirAndFilename :: "string \<Rightarrow> string \<times> string" where
  "SplitPathToDirAndFilename path =
     (let lastSeparatorI = LastIndex path ''/''
      in if lastSeparatorI \<noteq> - 1
         then (take (nat lastSeparatorI) path, drop (nat (lastSeparatorI + 1)) path)
         else ([], path))"

text \<open>
  The storage path of an object, as \<open>PutObject\<close>, \<open>ObjectExists\<close>, \<open>GetObject\<close> and
  \<open>DeleteObject\<close> all build it.
\<close>

definition objectPath :: "WebDAVObjectStore \<Rightarrow> string \<Rightarrow> string \<Rightarrow> string" where
  "objectPath w bucket key = bucketsDir w @ bucket @ delimiter w @ key"

subsection \<open>Common prefixes\<close>

text \<open>
  \<open>AddDirsWithCommonPrefixes\<close>: the loop over the entries of one directory, with the
  loop's two variables as arguments. The first argument bounds the depth of the
  recursion into subdirectories; \<open>None\<close> says that the bound was reached.
\<close>

fun AddDirsLoop ::
  "nat \<Rightarrow> readdir \<Rightarrow> string list \<Rightarrow> bool \<Rightarrow> fileinfo list \<Rightarrow> string \<Rightarrow> string \<Rightarrow> string
     \<Rightarrow> (string list \<times> bool \<times> error option) option"
where
  "AddDirsLoop 0 rd outputAccumulatedDirs allFilesDirs inputDirs completePrefix prefixToCut
     parentDirName = None"
| "AddDirsLoop (Suc n) rd outputAccumulatedDirs allFilesDirs [] completePrefix prefixToCut
     parentDirName = Some (outputAccumulatedDirs, allFilesDirs, None)"
| "AddDirsLoop (Suc n) rd outputAccumulatedDirs allFilesDirs (currentFile # rest)
     completePrefix prefixToCut parentDirName =
     (let completePath = parentDirName @ Name currentFile @ ''/'' in
      if \<not> HasPrefix completePath completePrefix
      then AddDirsLoop (Suc n) rd outputAccumulatedDirs allFilesDirs rest
             completePrefix prefixToCut parentDirName
      else if \<not> snd (CutPrefix completePath prefixToCut)
      then AddDirsLoop (Suc n) rd outputAccumulatedDirs allFilesDirs rest
             completePrefix prefixToCut parentDirName
      else if IsDir currentFile
      then (case rd completePath of
              Inl err \<Rightarrow> Some (outputAccumulatedDirs, allFilesDirs, Some err)
            | Inr subDirs \<Rightarrow>
                (case AddDirsLoop n rd outputAccumulatedDirs True subDirs
                        completePrefix prefixToCut completePath of
                   None \<Rightarrow> None
                 | Some (dirs, allSubfilesDirs, Some err) \<Rightarrow> Some (dirs, allFilesDirs, Some err)
                 | Some (dirs, allSubfilesDirs, None) \<Rightarrow>
                     AddDirsLoop (Suc n) rd
                       (if \<not> allSubfilesDirs
                        then dirs @ [fst (CutPrefix completePath prefixToCut)] else dirs)
                       allFilesDirs rest completePrefix prefixToCut parentDirName))
      else AddDirsLoop (Suc n) rd outputAccumulatedDirs False rest
             completePrefix prefixToCut parentDirName)"

definition AddDirsWithCommonPrefixes ::
  "nat \<Rightarrow> readdir \<Rightarrow> string list \<Rightarrow> fileinfo list \<Rightarrow> string \<Rightarrow> string \<Rightarrow> string
     \<Rightarrow> (string list \<times> bool \<times> error option) option"
where
  "AddDirsWithCommonPrefixes n rd accumulatedDirs inputDirs completePrefix prefixToCut
     parentDirName =
     AddDirsLoop n rd accumulatedDirs True inputDirs completePrefix prefixToCut parentDirName"

fun GetAllFiles ::
  "nat \<Rightarrow> readdir \<Rightarrow> string list \<Rightarrow> fileinfo list \<Rightarrow> string
     \<Rightarrow> (string list \<times> error option) option"
where
  "GetAllFiles 0 rd outputAccumulatedFiles inputDirs parentDirName = None"
| "GetAllFiles (Suc n) rd outputAccumulatedFiles [] parentDirName =
     Some (outputAccumulatedFiles, None)"
| "GetAllFiles (Suc n) rd outputAccumulatedFiles (currentFile # rest) parentDirName =
     (let completePath = parentDirName @ Name currentFile @ ''/'' in
      if IsDir currentFile
      then (case rd completePath of
              Inl err \<Rightarrow> Some (outputAccumulatedFiles, Some err)
            | Inr subDirs \<Rightarrow>
                (case GetAllFiles n rd outputAccumulatedFiles subDirs completePath of
                   None \<Rightarrow> None
                 | Some (files, Some err) \<Rightarrow> Some (files, Some err)
                 | Some (files, None) \<Rightarrow> GetAllFiles (Suc n) rd files rest parentDirName))
      else GetAllFiles (Suc n) rd (outputAccumulatedFiles @ [completePath]) rest
             parentDirName)"

text \<open>
  \<open>DeterminePrefixesFromFilesWithDelimiter\<close>: the loop carries the map of the prefixes
  already stored and the list \<open>prefixes\<close> built so far. A key that is absent from a Go map reads as
  \<open>false\<close>.
\<close>

fun DeterminePrefixesLoop ::
  "(string \<rightharpoonup> bool) \<Rightarrow> string list \<Rightarrow> string list \<Rightarrow> string \<Rightarrow> string \<Rightarrow> string list"
where
  "DeterminePrefixesLoop isPrefixPresent prefixes' [] delim prefixToCut = prefixes'"
| "DeterminePrefixesLoop isPrefixPresent prefixes' (currentFile # rest) delim prefixToCut =
     (if \<not> snd (CutPrefix currentFile prefixToCut)
      then DeterminePrefixesLoop isPrefixPresent prefixes' rest delim prefixToCut
      else
        (let commonPrefix = fst (CutPrefix currentFile prefixToCut);
             lastDelimiterI = LastIndex commonPrefix delim in
         if lastDelimiterI = - 1
         then DeterminePrefixesLoop isPrefixPresent prefixes' rest delim prefixToCut
         else
           (let currentPrefix = take (nat lastDelimiterI) commonPrefix;
                isCurrentPrefixPresent =
                  (case isPrefixPresent currentPrefix of None \<Rightarrow> False | Some b \<Rightarrow> b) in
            if \<not> isCurrentPrefixPresent
            then DeterminePrefixesLoop (isPrefixPresent(currentPrefix \<mapsto> True))
                   (prefixes' @ [currentPrefix]) rest delim prefixToCut
            else DeterminePrefixesLoop isPrefixPresent prefixes' rest delim prefixToCut)))"

definition DeterminePrefixesFromFilesWithDelimiter ::
  "string list \<Rightarrow> string \<Rightarrow> string \<Rightarrow> string list"
where
  "DeterminePrefixesFromFilesWithDelimiter fileList delim prefixToCut =
     DeterminePrefixesLoop Map.empty [] fileList delim prefixToCut"

text \<open>
  \<open>ListCommonPrefixes\<close>. The results are the returned list and the returned error;
  the outer \<open>None\<close> is the depth bound of the traversal.
\<close>

definition ListCommonPrefixes ::
  "nat \<Rightarrow> WebDAVObjectStore \<Rightarrow> 's Client \<Rightarrow> 's \<Rightarrow> string \<Rightarrow> string \<Rightarrow> string
     \<Rightarrow> (string list \<times> error option) option"
where
  "ListCommonPrefixes n w c s bucket pfx delim =
     (let prefixToUse = (if pfx \<noteq> [] \<and> \<not> HasSuffix pfx delim then pfx @ delim else pfx);
          prefixToCut = bucketsDir w @ bucket @ delim;
          rootDir = (if delim = ''/'' then bucketsDir w @ bucket @ ''/'' @ prefixToUse
                     else bucket);
          dirs = []
      in case Connect c s of
           Some err \<Rightarrow> Some (dirs, Some err)
         | None \<Rightarrow>
             (case ReadDir c s rootDir of
                Inl err \<Rightarrow>
                  if IsErrNotFound err then Some (dirs, None) else Some (dirs, Some err)
              | Inr rootSubdirs \<Rightarrow>
                  if delim = ''/''
                  then (case AddDirsWithCommonPrefixes n (ReadDir c s) dirs rootSubdirs
                               rootDir prefixToCut rootDir of
                          None \<Rightarrow> None
                        | Some (dirs', allDirs, err) \<Rightarrow> Some (dirs', err))
                  else (case GetAllFiles n (ReadDir c s) dirs rootSubdirs rootDir of
                          None \<Rightarrow> None
                        | Some (allFiles, Some err) \<Rightarrow> Some (dirs, Some err)
                        | Some (allFiles, None) \<Rightarrow>
                            Some (DeterminePrefixesFromFilesWithDelimiter allFiles delim
                                    prefixToCut, None))))"

subsection \<open>Objects\<close>

fun ListObjectsLoop :: "WebDAVObjectStore \<Rightarrow> string list \<Rightarrow> fileinfo list \<Rightarrow> string \<Rightarrow> string \<Rightarrow> string list"
where
  "ListObjectsLoop w objects [] path prefixToCut = objects"
| "ListObjectsLoop w objects (file # rest) path prefixToCut =
     (if \<not> IsDir file
      then (let completePath = path @ Name file @ delimiter w in
            if \<not> snd (CutPrefix completePath prefixToCut)
            then ListObjectsLoop w objects rest path prefixToCut
            else ListObjectsLoop w (objects @ [fst (CutPrefix completePath prefixToCut)])
                   rest path prefixToCut)
      else ListObjectsLoop w objects rest path prefixToCut)"

definition ListObjects ::
  "WebDAVObjectStore \<Rightarrow> 's Client \<Rightarrow> 's \<Rightarrow> string \<Rightarrow> string \<Rightarrow> string list \<times> error option"
where
  "ListObjects w c s bucket pfx =
     (let prefixToUse = (if pfx \<noteq> [] \<and> \<not> HasSuffix pfx (delimiter w)
                         then pfx @ delimiter w else pfx);
          path = bucketsDir w @ bucket @ delimiter w @ prefixToUse;
          objects = []
      in case Connect c s of
           Some err \<Rightarrow> (objects, Some err)
         | None \<Rightarrow>
             (case ReadDir c s path of
                Inl err \<Rightarrow> if IsErrNotFound err then (objects, None) else (objects, Some err)
              | Inr files \<Rightarrow>
                  (let prefixToCut = bucketsDir w @ bucket @ delimiter w
                   in (ListObjectsLoop w objects files path prefixToCut, None))))"

text \<open>\<open>DeleteObject\<close> returns its error and the server state it leaves behind.\<close>

definition DeleteObject ::
  "WebDAVObjectStore \<Rightarrow> 's Client \<Rightarrow> 's \<Rightarrow> string \<Rightarrow> string \<Rightarrow> error option \<times> 's"
where
  "DeleteObject w c s bucket key =
     (let path = bucketsDir w @ bucket @ delimiter w @ key;
          dir = fst (SplitPathToDirAndFilename path)
      in case Connect c s of
           Some err \<Rightarrow> (Some err, s)
         | None \<Rightarrow>
             (case Remove c s path of
                (Some err, s1) \<Rightarrow> (Some err, s1)
              | (None, s1) \<Rightarrow>
                  (case ReadDir c s1 dir of
                     Inl err \<Rightarrow> (Some err, s1)
                   | Inr files \<Rightarrow>
                       if length files = 0
                       then (case Remove c s1 dir of
                               (Some err, s2) \<Rightarrow> (Some err, s2)
                             | (None, s2) \<Rightarrow> (None, s2))
                       else (None, s1))))"

section \<open>Vocabulary of the specification\<close>

text \<open>
  The prefix of a listing call, made to end with the delimiter unless it is empty, and
  the directories that \<open>ListCommonPrefixes\<close> and \<open>ListObjects\<close> read first.
\<close>

definition normalizedPrefix :: "string \<Rightarrow> string \<Rightarrow> string" where
  "normalizedPrefix pfx delim =
     (if pfx \<noteq> [] \<and> \<not> HasSuffix pfx delim then pfx @ delim else pfx)"

definition commonPrefixesRoot :: "WebDAVObjectStore \<Rightarrow> string \<Rightarrow> string \<Rightarrow> string \<Rightarrow> string"
where
  "commonPrefixesRoot w bucket pfx delim =
     (if delim = ''/'' then bucketsDir w @ bucket @ ''/'' @ normalizedPrefix pfx delim
      else bucket)"

definition objectsRoot :: "WebDAVObjectStore \<Rightarrow> string \<Rightarrow> string \<Rightarrow> string" where
  "objectsRoot w bucket pfx =
     bucketsDir w @ bucket @ delimiter w @ normalizedPrefix pfx (delimiter w)"

text \<open>A directory has an object when its own listing holds an entry that is no directory.\<close>

definition has_object :: "readdir \<Rightarrow> string \<Rightarrow> bool" where
  "has_object rd p =
     (case rd p of Inl e \<Rightarrow> False | Inr files \<Rightarrow> \<exists>f\<in>set files. \<not> IsDir f)"

text \<open>
  \<open>descends rd parent files p\<close>: \<open>p\<close> is the path of a directory entry of the listing
  \<open>files\<close> of \<open>parent\<close>, or of a listing reached from it through directory entries.
\<close>

inductive descends :: "readdir \<Rightarrow> string \<Rightarrow> fileinfo list \<Rightarrow> string \<Rightarrow> bool"
  for rd :: readdir
where
  child: "f \<in> set files \<Longrightarrow> IsDir f \<Longrightarrow> descends rd parent files (parent @ Name f @ ''/'')"
| deeper: "f \<in> set files \<Longrightarrow> IsDir f \<Longrightarrow> rd (parent @ Name f @ ''/'') = Inr sub \<Longrightarrow>
     descends rd (parent @ Name f @ ''/'') sub p \<Longrightarrow> descends rd parent files p"

definition below :: "readdir \<Rightarrow> string \<Rightarrow> string \<Rightarrow> bool" where
  "below rd rootDir p =
     (case rd rootDir of Inl e \<Rightarrow> False | Inr files \<Rightarrow> descends rd rootDir files p)"

text \<open>
  A directory contains an object when an entry that is no directory lies in it or in a
  directory beneath it; otherwise all that lies beneath it is directories.
\<close>

inductive contains_object :: "readdir \<Rightarrow> string \<Rightarrow> bool"
  for rd :: readdir
where
  direct: "rd p = Inr files \<Longrightarrow> f \<in> set files \<Longrightarrow> \<not> IsDir f \<Longrightarrow> contains_object rd p"
| nested: "rd p = Inr files \<Longrightarrow> f \<in> set files \<Longrightarrow> IsDir f \<Longrightarrow>
     contains_object rd (p @ Name f @ ''/'') \<Longrightarrow> contains_object rd p"

text \<open>The prefixes of the directories with an object that descend from a listing.\<close>

definition listed :: "readdir \<Rightarrow> string \<Rightarrow> string \<Rightarrow> fileinfo list \<Rightarrow> string set" where
  "listed rd prefixToCut parent files =
     drop (length prefixToCut) ` {p. descends rd parent files p \<and> has_object rd p}"

text \<open>
  \<open>fuel_ok rd n parent files\<close>: the directories beneath the listing \<open>files\<close> are nested
  less than \<open>n\<close> deep, so that a traversal bounded by \<open>n\<close> reaches all of them.
\<close>

fun fuel_ok :: "readdir \<Rightarrow> nat \<Rightarrow> string \<Rightarrow> fileinfo list \<Rightarrow> bool" where
  "fuel_ok rd 0 parent files = False"
| "fuel_ok rd (Suc n) parent files =
     (\<forall>f\<in>set files. IsDir f \<longrightarrow>
        (case rd (parent @ Name f @ ''/'') of
           Inl e \<Rightarrow> True
         | Inr sub \<Rightarrow> fuel_ok rd n (parent @ Name f @ ''/'') sub))"

text \<open>
  What \<open>ListObjects\<close> would return if it reported the storage path of each object with
  the bucket part cut off and nothing added.
\<close>

definition ListObjects_stripped ::
  "WebDAVObjectStore \<Rightarrow> string \<Rightarrow> string \<Rightarrow> fileinfo list \<Rightarrow> string list"
where
  "ListObjects_stripped w bucket pfx files =
     map (\<lambda>f. drop (length (bucketsDir w @ bucket @ delimiter w))
                 (objectsRoot w bucket pfx @ Name f))
       (filter (\<lambda>f. \<not> IsDir f) files)"

section \<open>Example stores and servers\<close>

definition store_example :: WebDAVObjectStore where
  "store_example = \<lparr>root = ''https://dav.example.org'', user = ''velero'', password = ''secret'',
     bucketsDir = ''backups/'', logLevel = ''WARN'', delimiter = ''/''\<rparr>"

definition store_plain :: WebDAVObjectStore where
  "store_plain = \<lparr>root = ''https://dav.example.org'', user = ''velero'', password = ''secret'',
     bucketsDir = [], logLevel = ''WARN'', delimiter = ''/''\<rparr>"

definition store_dash :: WebDAVObjectStore where
  "store_dash = \<lparr>root = ''https://dav.example.org'', user = ''velero'', password = ''secret'',
     bucketsDir = [], logLevel = ''WARN'', delimiter = ''-''\<rparr>"

definition dir_entry :: "string \<Rightarrow> fileinfo" where
  "dir_entry n = \<lparr>Name = n, IsDir = True\<rparr>"

definition file_entry :: "string \<Rightarrow> fileinfo" where
  "file_entry n = \<lparr>Name = n, IsDir = False\<rparr>"

text \<open>A server that only answers directory reads, from a fixed tree.\<close>

definition reader :: "readdir \<Rightarrow> unit Client" where
  "reader rd = \<lparr>Connect = (\<lambda>s. None), ReadDir = (\<lambda>s. rd), Remove = (\<lambda>s p. (None, s))\<rparr>"

text \<open>
  The tree that holds the objects \<open>my-app/cars/a\<close>, \<open>my-app/trains/b\<close> and
  \<open>some-other-app/bridges/c\<close> of the bucket \<open>backups\<close> under the buckets directory
  \<open>backups/\<close>.
\<close>

definition scenario_tree :: readdir where
  "scenario_tree p =
     (if p = ''backups/backups/'' then Inr [dir_entry ''my-app'', dir_entry ''some-other-app'']
      else if p = ''backups/backups/my-app/'' then Inr [dir_entry ''cars'', dir_entry ''trains'']
      else if p = ''backups/backups/my-app/cars/'' then Inr [file_entry ''a'']
      else if p = ''backups/backups/my-app/trains/'' then Inr [file_entry ''b'']
      else if p = ''backups/backups/some-other-app/'' then Inr [dir_entry ''bridges'']
      else if p = ''backups/backups/some-other-app/bridges/'' then Inr [file_entry ''c'']
      else Inl ErrNotFound)"

text \<open>The same three objects on a server that lists \<open>trains\<close> before \<open>cars\<close>.\<close>

definition scenario_tree_swapped :: readdir where
  "scenario_tree_swapped p =
     (if p = ''backups/backups/'' then Inr [dir_entry ''my-app'', dir_entry ''some-other-app'']
      else if p = ''backups/backups/my-app/'' then Inr [dir_entry ''trains'', dir_entry ''cars'']
      else if p = ''backups/backups/my-app/cars/'' then Inr [file_entry ''a'']
      else if p = ''backups/backups/my-app/trains/'' then Inr [file_entry ''b'']
      else if p = ''backups/backups/some-other-app/'' then Inr [dir_entry ''bridges'']
      else if p = ''backups/backups/some-other-app/bridges/'' then Inr [file_entry ''c'']
      else Inl ErrNotFound)"

text \<open>The bucket \<open>b\<close> with the single object \<open>D/E/f\<close>.\<close>

definition nested_tree :: readdir where
  "nested_tree p =
     (if p = ''b/'' then Inr [dir_entry ''D'']
      else if p = ''b/D/'' then Inr [dir_entry ''E'']
      else if p = ''b/D/E/'' then Inr [file_entry ''f'']
      else Inl ErrNotFound)"

text \<open>A directory \<open>b\<close> that holds the single file \<open>-k-x\<close>.\<close>

definition dash_tree :: readdir where
  "dash_tree p = (if p = ''b'' then Inr [file_entry ''-k-x''] else Inl ErrNotFound)"

definition forbidden_tree :: readdir where
  "forbidden_tree p = Inl (ErrOther ''403 Forbidden'')"

text \<open>
  A server whose state is the list of the paths removed so far. The directory
  \<open>my-app/cars\<close> holds the file \<open>a\<close>, the directory \<open>my-app/trains\<close> the files \<open>b2\<close>
  and \<open>b\<close>; nothing can be removed at \<open>gone/x\<close>, and no other directory can be read.
\<close>

definition removal_client :: "string list Client" where
  "removal_client =
     \<lparr>Connect = (\<lambda>s. None),
      ReadDir = (\<lambda>s p.
        if p = ''backups/backups/my-app/cars''
        then Inr (if ''backups/backups/my-app/cars/a'' \<in> set s then [] else [file_entry ''a''])
        else if p = ''backups/backups/my-app/trains''
        then Inr (file_entry ''b2'' #
                  (if ''backups/backups/my-app/trains/b'' \<in> set s then []
                   else [file_entry ''b'']))
        else Inl (ErrOther ''403 Forbidden'')),
      Remove = (\<lambda>s p.
        if p = ''backups/backups/gone/x'' then (Some ErrNotFound, s) else (None, s @ [p]))\<rparr>"

section \<open>Facts about the string functions\<close>

lemma find_Some_sat: "List.find P xs = Some a \<Longrightarrow> P a \<and> a \<in> set xs"
  by (induction xs) (auto split: if_splits)

lemma LastIndex_none_iff:
  "LastIndex s sep = - 1 \<longleftrightarrow>
     (\<forall>i<Suc (length s - length sep). take (length sep) (drop i s) \<noteq> sep)"
proof (cases "List.find (\<lambda>i. take (length sep) (drop i s) = sep)
                (rev [0 ..< Suc (length s - length sep)])")
  case None
  have l: "LastIndex s sep = - 1" unfolding LastIndex_def None by simp
  from None have "\<forall>i<Suc (length s - length sep). take (length sep) (drop i s) \<noteq> sep"
    unfolding find_None_iff by (simp del: upt_Suc)
  with l show ?thesis by simp
next
  case (Some a)
  from find_Some_sat [OF Some]
  have "a < Suc (length s - length sep) \<and> take (length sep) (drop a s) = sep"
    by (simp del: upt_Suc)
  with Some show ?thesis by (auto simp: LastIndex_def simp del: upt_Suc)
qed

lemma LastIndex_some:
  assumes "LastIndex s sep = int i"
  shows "take (length sep) (drop i s) = sep"
proof (cases "List.find (\<lambda>i. take (length sep) (drop i s) = sep)
                (rev [0 ..< Suc (length s - length sep)])")
  case None
  with assms show ?thesis by (simp add: LastIndex_def del: upt_Suc)
next
  case (Some a)
  with assms have "a = i" by (simp add: LastIndex_def del: upt_Suc)
  with find_Some_sat [OF Some] show ?thesis by simp
qed

lemma LastIndex_cases: "LastIndex s sep = - 1 \<or> (\<exists>i. LastIndex s sep = int i)"
  by (simp add: LastIndex_def del: upt_Suc split: option.splits)

lemma LastIndex_slash_none: "LastIndex s ''/'' = - 1 \<longleftrightarrow> CHR ''/'' \<notin> set s"
proof
  assume a: "LastIndex s ''/'' = - 1"
  show "CHR ''/'' \<notin> set s"
  proof
    assume "CHR ''/'' \<in> set s"
    then obtain i where i: "i < length s" "s ! i = CHR ''/''"
      by (auto simp: in_set_conv_nth)
    then have "take (length ''/'') (drop i s) = ''/''"
      by (simp add: take_Suc_conv_app_nth)
    moreover from i have "i < Suc (length s - length ''/'')" by simp
    ultimately show False using a unfolding LastIndex_none_iff by blast
  qed
next
  assume n: "CHR ''/'' \<notin> set s"
  have "take (length ''/'') (drop i s) \<noteq> ''/''" for i
  proof
    assume e: "take (length ''/'') (drop i s) = ''/''"
    have "CHR ''/'' \<in> set (take (length ''/'') (drop i s))" unfolding e by simp
    then have "CHR ''/'' \<in> set s" by (meson in_set_dropD in_set_takeD)
    with n show False by simp
  qed
  then show "LastIndex s ''/'' = - 1" unfolding LastIndex_none_iff by blast
qed

lemma LastIndex_slash_some:
  assumes "LastIndex s ''/'' = int i"
  shows "i < length s \<and> s ! i = CHR ''/''"
proof -
  from LastIndex_some [OF assms] have t: "take 1 (drop i s) = ''/''" by simp
  then have "drop i s \<noteq> []" by auto
  then have l: "i < length s" by simp
  with t have "s ! i = CHR ''/''" by (simp add: take_Suc_conv_app_nth)
  with l show ?thesis by simp
qed

lemma Split_without_slash:
  "CHR ''/'' \<notin> set p \<Longrightarrow> SplitPathToDirAndFilename p = ([], p)"
  using LastIndex_slash_none [of p] by (simp add: SplitPathToDirAndFilename_def)

lemma Split_with_slash:
  assumes "CHR ''/'' \<in> set p"
  shows "fst (SplitPathToDirAndFilename p) @ ''/'' @ snd (SplitPathToDirAndFilename p) = p"
proof -
  from assms have "LastIndex p ''/'' \<noteq> - 1" by (simp add: LastIndex_slash_none)
  with LastIndex_cases [of p "''/''"] obtain i where i: "LastIndex p ''/'' = int i"
    by blast
  from LastIndex_slash_some [OF i] have "i < length p" "p ! i = CHR ''/''" by auto
  then have "take i p @ ''/'' @ drop (Suc i) p = p"
    using id_take_nth_drop [of i p] by simp
  with i show ?thesis
    by (simp add: SplitPathToDirAndFilename_def nat_add_distrib)
qed

section \<open>Paths\<close>

text \<open>
  C9. The storage path of a bucket and a key, split by \<open>SplitPathToDirAndFilename\<close>
  and put together again as the directory, \<open>/\<close> and the name, is the storage path
  itself whenever it contains a \<open>/\<close>; when it contains none, the directory is empty
  and the name is the whole path. This holds for every bucket and key, the non-empty
  ones among them.
\<close>

theorem split_recombine:
  "(CHR ''/'' \<in> set (objectPath w bucket key) \<longrightarrow>
      fst (SplitPathToDirAndFilename (objectPath w bucket key)) @ ''/'' @
      snd (SplitPathToDirAndFilename (objectPath w bucket key)) = objectPath w bucket key) \<and>
   (CHR ''/'' \<notin> set (objectPath w bucket key) \<longrightarrow>
      SplitPathToDirAndFilename (objectPath w bucket key) = ([], objectPath w bucket key))"
  using Split_with_slash [of "objectPath w bucket key"]
    Split_without_slash [of "objectPath w bucket key"]
  by blast

theorem split_recombine_witness:
  "CHR ''/'' \<in> set (objectPath store_example ''backups'' ''my-app/cars/a'') \<and>
   fst (SplitPathToDirAndFilename (objectPath store_example ''backups'' ''my-app/cars/a''))
     @ ''/'' @
   snd (SplitPathToDirAndFilename (objectPath store_example ''backups'' ''my-app/cars/a''))
     = ''backups/backups/my-app/cars/a'' \<and>
   CHR ''/'' \<notin> set (objectPath store_dash ''b'' ''k-x'') \<and>
   SplitPathToDirAndFilename (objectPath store_dash ''b'' ''k-x'') = ([], ''b-k-x'')"
proof -
  have p1: "objectPath store_example ''backups'' ''my-app/cars/a'' = ''backups/backups/my-app/cars/a''"
    by (simp add: objectPath_def store_example_def)
  have p2: "objectPath store_dash ''b'' ''k-x'' = ''b-k-x''"
    by (simp add: objectPath_def store_dash_def)
  have h1: "CHR ''/'' \<in> set (objectPath store_example ''backups'' ''my-app/cars/a'')"
    unfolding p1 by simp
  have h2: "CHR ''/'' \<notin> set (objectPath store_dash ''b'' ''k-x'')"
    unfolding p2 by simp
  from split_recombine [of store_example "''backups''" "''my-app/cars/a''"] h1
  have c1: "fst (SplitPathToDirAndFilename (objectPath store_example ''backups'' ''my-app/cars/a''))
     @ ''/'' @
     snd (SplitPathToDirAndFilename (objectPath store_example ''backups'' ''my-app/cars/a''))
     = objectPath store_example ''backups'' ''my-app/cars/a''"
    by blast
  from split_recombine [of store_dash "''b''" "''k-x''"] h2
  have c2: "SplitPathToDirAndFilename (objectPath store_dash ''b'' ''k-x'')
     = ([], objectPath store_dash ''b'' ''k-x'')"
    by blast
  from h1 h2 c1 c2 show ?thesis by (simp only: p1 p2 simp_thms)
qed

section \<open>Initialisation\<close>

lemma Init_bucketsDir:
  "bucketsDir (fst (Init ToUpper w config)) =
     (if config_get config ''bucketsDir'' \<noteq> [] \<and> \<not> prefix ''/'' (config_get config ''bucketsDir'')
      then config_get config ''bucketsDir'' @ ''/'' else config_get config ''bucketsDir'')"
  by (simp add: Init_def HasPrefix_def Let_def)

text \<open>
  C4. After \<open>Init\<close> the buckets directory of the store should be empty or end with
  \<open>/\<close>. \<open>Init\<close> tests whether the configured directory starts with \<open>/\<close>, not whether
  it ends with it: the configured directory \<open>/backups\<close> is stored as it is, not empty
  and without a \<open>/\<close> at its end.
\<close>

theorem Init_keeps_leading_slash_dir:
  "bucketsDir (fst (Init ToUpper w [''bucketsDir'' \<mapsto> ''/backups''])) = ''/backups'' \<and>
   \<not> HasSuffix (bucketsDir (fst (Init ToUpper w [''bucketsDir'' \<mapsto> ''/backups'']))) ''/'' \<and>
   bucketsDir (fst (Init ToUpper w [''bucketsDir'' \<mapsto> ''/backups''])) \<noteq> []"
  by (simp add: Init_def config_get_def HasPrefix_def HasSuffix_def suffix_to_prefix Let_def)

section \<open>Errors of the first directory read\<close>

text \<open>
  C7. When the connection is made and the read of the listing root fails,
  \<open>ListCommonPrefixes\<close> and \<open>ListObjects\<close> return the empty list; the error they return
  is none when the failure is the not-found condition, and the error of the read
  otherwise. The bound of the traversal plays no part.
\<close>

theorem root_read_error:
  assumes "Connect c s = None"
  shows "(ReadDir c s (commonPrefixesRoot w bucket pfx delim) = Inl e \<longrightarrow>
            ListCommonPrefixes n w c s bucket pfx delim =
              Some ([], if IsErrNotFound e then None else Some e)) \<and>
         (ReadDir c s (objectsRoot w bucket pfx) = Inl e \<longrightarrow>
            ListObjects w c s bucket pfx = ([], if IsErrNotFound e then None else Some e))"
  using assms
  by (simp add: ListCommonPrefixes_def ListObjects_def commonPrefixesRoot_def objectsRoot_def
      normalizedPrefix_def Let_def)

theorem root_read_error_witness:
  "Connect (reader scenario_tree) () = None \<and>
   ReadDir (reader scenario_tree) () (commonPrefixesRoot store_example ''backups'' ''absent'' ''/'')
     = Inl ErrNotFound \<and>
   ListCommonPrefixes 5 store_example (reader scenario_tree) () ''backups'' ''absent'' ''/''
     = Some ([], None) \<and>
   ReadDir (reader scenario_tree) () (objectsRoot store_example ''backups'' ''absent'')
     = Inl ErrNotFound \<and>
   ListObjects store_example (reader scenario_tree) () ''backups'' ''absent'' = ([], None) \<and>
   Connect (reader forbidden_tree) () = None \<and>
   ReadDir (reader forbidden_tree) () (commonPrefixesRoot store_example ''backups'' ''my-app'' ''/'')
     = Inl (ErrOther ''403 Forbidden'') \<and>
   ListCommonPrefixes 5 store_example (reader forbidden_tree) () ''backups'' ''my-app'' ''/''
     = Some ([], Some (ErrOther ''403 Forbidden'')) \<and>
   ReadDir (reader forbidden_tree) () (objectsRoot store_example ''backups'' ''my-app'')
     = Inl (ErrOther ''403 Forbidden'') \<and>
   ListObjects store_example (reader forbidden_tree) () ''backups'' ''my-app''
     = ([], Some (ErrOther ''403 Forbidden''))"
proof -
  have c1: "Connect (reader scenario_tree) () = None" by (simp add: reader_def)
  have c2: "Connect (reader forbidden_tree) () = None" by (simp add: reader_def)
  have r1: "ReadDir (reader scenario_tree) ()
              (commonPrefixesRoot store_example ''backups'' ''absent'' ''/'') = Inl ErrNotFound"
    by (simp add: reader_def scenario_tree_def commonPrefixesRoot_def normalizedPrefix_def
        store_example_def HasSuffix_def suffix_to_prefix)
  have r2: "ReadDir (reader scenario_tree) () (objectsRoot store_example ''backups'' ''absent'')
              = Inl ErrNotFound"
    by (simp add: reader_def scenario_tree_def objectsRoot_def normalizedPrefix_def
        store_example_def HasSuffix_def suffix_to_prefix)
  have r3: "ReadDir (reader forbidden_tree) () q = Inl (ErrOther ''403 Forbidden'')" for q
    by (simp add: reader_def forbidden_tree_def)
  note a = root_read_error [OF c1, of store_example "''backups''" "''absent''" "''/''" ErrNotFound 5]
  note b = root_read_error [OF c2, of store_example "''backups''" "''my-app''" "''/''"
      "ErrOther ''403 Forbidden''" 5]
  from a r1 r2 have a': "ListCommonPrefixes 5 store_example (reader scenario_tree) () ''backups''
      ''absent'' ''/'' = Some ([], None)"
    "ListObjects store_example (reader scenario_tree) () ''backups'' ''absent'' = ([], None)"
    by (simp_all add: IsErrNotFound_def)
  from b r3 have b': "ListCommonPrefixes 5 store_example (reader forbidden_tree) () ''backups''
      ''my-app'' ''/'' = Some ([], Some (ErrOther ''403 Forbidden''))"
    "ListObjects store_example (reader forbidden_tree) () ''backups'' ''my-app''
      = ([], Some (ErrOther ''403 Forbidden''))"
    by (simp_all add: IsErrNotFound_def)
  from c1 c2 r1 r2 r3 a' b' show ?thesis by (simp only: simp_thms)
qed

section \<open>Deleting an object\<close>

text \<open>
  C8. When the connection is made, \<open>DeleteObject\<close> removes the object at its storage
  path. An error of that removal is returned. Otherwise the parent directory is read
  in the state the removal left: an error of the read is returned; a listing that is
  not empty ends the operation without error and with the server as the first removal
  left it; an empty listing makes the operation remove the parent directory, and the
  result of the operation is the result of that second removal, its error and its
  state. No other directory is removed.
\<close>

theorem DeleteObject_cases:
  assumes "Connect c s = None"
  shows "(Remove c s (objectPath w bucket key) = (Some e, s1) \<longrightarrow>
            DeleteObject w c s bucket key = (Some e, s1)) \<and>
         (Remove c s (objectPath w bucket key) = (None, s1) \<and>
          ReadDir c s1 (fst (SplitPathToDirAndFilename (objectPath w bucket key))) = Inl e \<longrightarrow>
            DeleteObject w c s bucket key = (Some e, s1)) \<and>
         (Remove c s (objectPath w bucket key) = (None, s1) \<and>
          ReadDir c s1 (fst (SplitPathToDirAndFilename (objectPath w bucket key))) = Inr files \<and>
          files \<noteq> [] \<longrightarrow>
            DeleteObject w c s bucket key = (None, s1)) \<and>
         (Remove c s (objectPath w bucket key) = (None, s1) \<and>
          ReadDir c s1 (fst (SplitPathToDirAndFilename (objectPath w bucket key))) = Inr [] \<longrightarrow>
            DeleteObject w c s bucket key =
              Remove c s1 (fst (SplitPathToDirAndFilename (objectPath w bucket key))))"
  using assms
  by (auto simp: DeleteObject_def objectPath_def Let_def split: prod.splits option.splits)

theorem DeleteObject_cases_witness:
  "Connect removal_client [] = None \<and>
   Remove removal_client [] (objectPath store_example ''backups'' ''my-app/cars/a'')
     = (None, [''backups/backups/my-app/cars/a'']) \<and>
   ReadDir removal_client [''backups/backups/my-app/cars/a'']
     (fst (SplitPathToDirAndFilename (objectPath store_example ''backups'' ''my-app/cars/a'')))
     = Inr [] \<and>
   DeleteObject store_example removal_client [] ''backups'' ''my-app/cars/a''
     = (None, [''backups/backups/my-app/cars/a'', ''backups/backups/my-app/cars'']) \<and>
   Remove removal_client [] (objectPath store_example ''backups'' ''my-app/trains/b'')
     = (None, [''backups/backups/my-app/trains/b'']) \<and>
   ReadDir removal_client [''backups/backups/my-app/trains/b'']
     (fst (SplitPathToDirAndFilename (objectPath store_example ''backups'' ''my-app/trains/b'')))
     = Inr [file_entry ''b2''] \<and>
   DeleteObject store_example removal_client [] ''backups'' ''my-app/trains/b''
     = (None, [''backups/backups/my-app/trains/b'']) \<and>
   Remove removal_client [] (objectPath store_example ''backups'' ''gone/x'')
     = (Some ErrNotFound, []) \<and>
   DeleteObject store_example removal_client [] ''backups'' ''gone/x'' = (Some ErrNotFound, []) \<and>
   Remove removal_client [] (objectPath store_example ''backups'' ''odd/y'')
     = (None, [''backups/backups/odd/y'']) \<and>
   ReadDir removal_client [''backups/backups/odd/y'']
     (fst (SplitPathToDirAndFilename (objectPath store_example ''backups'' ''odd/y'')))
     = Inl (ErrOther ''403 Forbidden'') \<and>
   DeleteObject store_example removal_client [] ''backups'' ''odd/y''
     = (Some (ErrOther ''403 Forbidden''), [''backups/backups/odd/y''])"
proof -
  have c: "Connect removal_client [] = None" by (simp add: removal_client_def)
  have p: "objectPath store_example ''backups'' ''my-app/cars/a'' = ''backups/backups/my-app/cars/a''"
    "objectPath store_example ''backups'' ''my-app/trains/b'' = ''backups/backups/my-app/trains/b''"
    "objectPath store_example ''backups'' ''gone/x'' = ''backups/backups/gone/x''"
    "objectPath store_example ''backups'' ''odd/y'' = ''backups/backups/odd/y''"
    by (simp_all add: objectPath_def store_example_def)
  have d: "fst (SplitPathToDirAndFilename ''backups/backups/my-app/cars/a'') = ''backups/backups/my-app/cars''"
    "fst (SplitPathToDirAndFilename ''backups/backups/my-app/trains/b'') = ''backups/backups/my-app/trains''"
    "fst (SplitPathToDirAndFilename ''backups/backups/odd/y'') = ''backups/backups/odd''"
    by (simp_all add: SplitPathToDirAndFilename_def LastIndex_def)
  have r1: "Remove removal_client [] (objectPath store_example ''backups'' ''my-app/cars/a'')
     = (None, [''backups/backups/my-app/cars/a''])"
    unfolding p by (simp add: removal_client_def)
  have l1: "ReadDir removal_client [''backups/backups/my-app/cars/a'']
     (fst (SplitPathToDirAndFilename (objectPath store_example ''backups'' ''my-app/cars/a''))) = Inr []"
    unfolding p d by (simp add: removal_client_def)
  have r2: "Remove removal_client [] (objectPath store_example ''backups'' ''my-app/trains/b'')
     = (None, [''backups/backups/my-app/trains/b''])"
    unfolding p by (simp add: removal_client_def)
  have l2: "ReadDir removal_client [''backups/backups/my-app/trains/b'']
     (fst (SplitPathToDirAndFilename (objectPath store_example ''backups'' ''my-app/trains/b'')))
     = Inr [file_entry ''b2'']"
    unfolding p d by (simp add: removal_client_def)
  have r3: "Remove removal_client [] (objectPath store_example ''backups'' ''gone/x'')
     = (Some ErrNotFound, [])"
    unfolding p by (simp add: removal_client_def)
  have r4: "Remove removal_client [] (objectPath store_example ''backups'' ''odd/y'')
     = (None, [''backups/backups/odd/y''])"
    unfolding p by (simp add: removal_client_def)
  have l4: "ReadDir removal_client [''backups/backups/odd/y'']
     (fst (SplitPathToDirAndFilename (objectPath store_example ''backups'' ''odd/y'')))
     = Inl (ErrOther ''403 Forbidden'')"
    unfolding p d by (simp add: removal_client_def)
  note t = DeleteObject_cases [OF c, of store_example "''backups''"]
  from t [of "''my-app/cars/a''" _ "[''backups/backups/my-app/cars/a'']"] r1 l1
  have e1: "DeleteObject store_example removal_client [] ''backups'' ''my-app/cars/a''
     = Remove removal_client [''backups/backups/my-app/cars/a'']
         (fst (SplitPathToDirAndFilename (objectPath store_example ''backups'' ''my-app/cars/a'')))"
    by blast
  have e1': "DeleteObject store_example removal_client [] ''backups'' ''my-app/cars/a''
     = (None, [''backups/backups/my-app/cars/a'', ''backups/backups/my-app/cars''])"
    unfolding e1 p d by (simp add: removal_client_def)
  from t [of "''my-app/trains/b''" _ "[''backups/backups/my-app/trains/b'']" "[file_entry ''b2'']"]
    r2 l2
  have e2: "DeleteObject store_example removal_client [] ''backups'' ''my-app/trains/b''
     = (None, [''backups/backups/my-app/trains/b''])"
    by blast
  from t [of "''gone/x''" ErrNotFound "[]"] r3
  have e3: "DeleteObject store_example removal_client [] ''backups'' ''gone/x''
     = (Some ErrNotFound, [])"
    by blast
  from t [of "''odd/y''" "ErrOther ''403 Forbidden''" "[''backups/backups/odd/y'']"] r4 l4
  have e4: "DeleteObject store_example removal_client [] ''backups'' ''odd/y''
     = (Some (ErrOther ''403 Forbidden''), [''backups/backups/odd/y''])"
    by blast
  from c r1 l1 e1' r2 l2 e2 r3 e3 r4 l4 e4 show ?thesis by (simp only: simp_thms)
qed

section \<open>The prefix argument and other delimiters\<close>

lemma dash_run:
  "ListCommonPrefixes (Suc n) store_dash (reader dash_tree) () ''b'' pfx ''-''
     = Some ([''k''], None)"
  by (simp add: ListCommonPrefixes_def store_dash_def reader_def dash_tree_def
      DeterminePrefixesFromFilesWithDelimiter_def CutPrefix_def LastIndex_def file_entry_def
      Let_def)

text \<open>
  C10. With a delimiter other than \<open>/\<close>, the result of \<open>ListCommonPrefixes\<close> is the
  same for any two prefix arguments: the traversal starts at the bucket and the
  prefix is not used to select among the files found.
\<close>

theorem prefix_ignored:
  "delim \<noteq> ''/'' \<Longrightarrow>
     ListCommonPrefixes n w c s bucket p1 delim = ListCommonPrefixes n w c s bucket p2 delim"
  by (simp add: ListCommonPrefixes_def Let_def)

theorem prefix_ignored_witness:
  "''-'' \<noteq> ''/'' \<and>
   ListCommonPrefixes 1 store_dash (reader dash_tree) () ''b'' ''k'' ''-'' =
   ListCommonPrefixes 1 store_dash (reader dash_tree) () ''b'' ''other'' ''-'' \<and>
   ListCommonPrefixes 1 store_dash (reader dash_tree) () ''b'' ''other'' ''-''
     = Some ([''k''], None)"
proof -
  have h: "''-'' \<noteq> ''/''" by simp
  from prefix_ignored [OF h, of 1 store_dash "reader dash_tree" "()" "''b''" "''k''" "''other''"]
    dash_run [of 0 "''other''"] h
  show ?thesis by simp
qed

text \<open>
  C6. Every prefix that \<open>ListCommonPrefixes\<close> returns should end with the delimiter.
  With the delimiter \<open>-\<close> and the file \<open>-k-x\<close> in the directory of the bucket \<open>b\<close>,
  the operation returns the prefix \<open>k\<close>, the part of the key before its last
  delimiter, which does not end with \<open>-\<close>.
\<close>

theorem other_delimiter_prefix_without_delimiter:
  "ListCommonPrefixes (Suc n) store_dash (reader dash_tree) () ''b'' [] ''-''
     = Some ([''k''], None) \<and>
   \<not> HasSuffix ''k'' ''-''"
  by (simp add: dash_run HasSuffix_def suffix_to_prefix)

section \<open>The traversal of the directories\<close>

lemma descends_Nil: "\<not> descends rd parent [] p"
  by (auto elim: descends.cases)

lemma descends_Cons:
  "descends rd parent (f # rest) p \<longleftrightarrow>
     (IsDir f \<and> (p = parent @ Name f @ ''/'' \<or>
        (\<exists>sub. rd (parent @ Name f @ ''/'') = Inr sub \<and>
               descends rd (parent @ Name f @ ''/'') sub p)))
     \<or> descends rd parent rest p"
  (is "?L \<longleftrightarrow> ?R")
proof
  assume ?L
  then show ?R
  proof (cases rule: descends.cases)
    case (child g)
    then show ?thesis by (auto intro: descends.child)
  next
    case (deeper g sub)
    then show ?thesis by (auto intro: descends.deeper)
  qed
next
  assume ?R
  then show ?L
  proof (elim disjE conjE exE)
    assume "IsDir f" "p = parent @ Name f @ ''/''"
    then show ?L using descends.child [of f "f # rest" rd parent] by simp
  next
    fix sub
    assume "IsDir f" "rd (parent @ Name f @ ''/'') = Inr sub"
      "descends rd (parent @ Name f @ ''/'') sub p"
    then show ?L using descends.deeper [of f "f # rest" rd parent sub p] by simp
  next
    assume "descends rd parent rest p"
    then show ?L
    proof (cases rule: descends.cases)
      case (child g)
      then show ?thesis using descends.child [of g "f # rest" rd parent] by simp
    next
      case (deeper g sub)
      then show ?thesis using descends.deeper [of g "f # rest" rd parent sub p] by simp
    qed
  qed
qed

lemma descends_prefix: "descends rd parent files p \<Longrightarrow> prefix parent p"
proof (induction rule: descends.induct)
  case (child f files parent)
  then show ?case by simp
next
  case (deeper f files parent sub p)
  then show ?case by (meson prefix_order.trans prefix_prefix prefix_order.refl)
qed

lemma has_object_contains: "has_object rd p \<Longrightarrow> contains_object rd p"
  by (auto simp: has_object_def split: sum.splits intro: contains_object.direct)

lemma listed_Nil: "listed rd prefixToCut parent [] = {}"
  by (simp add: listed_def descends_Nil)

lemma listed_Cons_file:
  "\<not> IsDir f \<Longrightarrow> listed rd prefixToCut parent (f # rest) = listed rd prefixToCut parent rest"
  by (simp add: listed_def descends_Cons)

lemma listed_Cons_dir:
  assumes "IsDir f" "rd (parent @ Name f @ ''/'') = Inr sub"
  shows "listed rd prefixToCut parent (f # rest) =
           (if \<exists>g\<in>set sub. \<not> IsDir g
            then {drop (length prefixToCut) (parent @ Name f @ ''/'')} else {})
           \<union> listed rd prefixToCut (parent @ Name f @ ''/'') sub
           \<union> listed rd prefixToCut parent rest"
proof -
  have h: "has_object rd (parent @ Name f @ ''/'') = (\<exists>g\<in>set sub. \<not> IsDir g)"
    using assms by (simp add: has_object_def)
  have d: "descends rd parent (f # rest) p \<longleftrightarrow>
             p = parent @ Name f @ ''/'' \<or> descends rd (parent @ Name f @ ''/'') sub p
             \<or> descends rd parent rest p" for p
    using assms by (simp add: descends_Cons)
  have "{p. descends rd parent (f # rest) p \<and> has_object rd p} =
          (if \<exists>g\<in>set sub. \<not> IsDir g then {parent @ Name f @ ''/''} else {})
          \<union> {p. descends rd (parent @ Name f @ ''/'') sub p \<and> has_object rd p}
          \<union> {p. descends rd parent rest p \<and> has_object rd p}"
    unfolding d using h by auto
  then show ?thesis
    unfolding listed_def by (simp add: image_Un del: drop_append)
qed

text \<open>
  Below the listing root every path starts with the root and with the part to cut,
  so the two tests at the head of the loop body always pass.
\<close>

lemma step_filters:
  assumes "prefix prefixToCut completePrefix" "prefix completePrefix parentDirName"
  shows "HasPrefix (parentDirName @ x) completePrefix"
    and "CutPrefix (parentDirName @ x) prefixToCut =
           (drop (length prefixToCut) (parentDirName @ x), True)"
proof -
  from assms have a: "prefix completePrefix (parentDirName @ x)"
    by (meson prefix_order.trans prefix_prefix prefix_order.refl)
  with assms have b: "prefix prefixToCut (parentDirName @ x)"
    by (meson prefix_order.trans)
  from a show "HasPrefix (parentDirName @ x) completePrefix" by (simp add: HasPrefix_def)
  from b show "CutPrefix (parentDirName @ x) prefixToCut =
           (drop (length prefixToCut) (parentDirName @ x), True)"
    by (simp add: CutPrefix_def)
qed

lemma AddDirsLoop_step:
  assumes "prefix prefixToCut completePrefix" "prefix completePrefix parentDirName"
  shows "AddDirsLoop (Suc n) rd out allFilesDirs (f # rest) completePrefix prefixToCut
           parentDirName =
     (if IsDir f
      then (case rd (parentDirName @ Name f @ ''/'') of
              Inl err \<Rightarrow> Some (out, allFilesDirs, Some err)
            | Inr subDirs \<Rightarrow>
                (case AddDirsLoop n rd out True subDirs completePrefix prefixToCut
                        (parentDirName @ Name f @ ''/'') of
                   None \<Rightarrow> None
                 | Some (dirs, allSubfilesDirs, Some err) \<Rightarrow> Some (dirs, allFilesDirs, Some err)
                 | Some (dirs, allSubfilesDirs, None) \<Rightarrow>
                     AddDirsLoop (Suc n) rd
                       (if \<not> allSubfilesDirs
                        then dirs @ [drop (length prefixToCut) (parentDirName @ Name f @ ''/'')]
                        else dirs)
                       allFilesDirs rest completePrefix prefixToCut parentDirName))
      else AddDirsLoop (Suc n) rd out False rest completePrefix prefixToCut parentDirName)"
  using step_filters [OF assms, of "Name f @ ''/''"]
  by (simp add: Let_def split: sum.split option.split prod.split)

text \<open>
  A traversal that ends without error returns the prefixes it was given and the
  prefixes of exactly the directories with an object that descend from its listing;
  its flag says that the loop variable was true before and that every entry of the
  listing itself is a directory.
\<close>

lemma AddDirsLoop_exact:
  assumes cut: "prefix prefixToCut completePrefix"
  shows "prefix completePrefix parent \<Longrightarrow>
         AddDirsLoop n rd out allFilesDirs files completePrefix prefixToCut parent
           = Some (dirs, b, None) \<Longrightarrow>
         set dirs = set out \<union> listed rd prefixToCut parent files \<and>
         b = (allFilesDirs \<and> (\<forall>f\<in>set files. IsDir f))"
proof (induction n arbitrary: parent files out allFilesDirs dirs b)
  case 0
  then show ?case by simp
next
  case (Suc n)
  note outer = Suc.IH
  from Suc.prems show ?case
  proof (induction files arbitrary: out allFilesDirs)
    case Nil
    then show ?case by (auto simp: listed_Nil)
  next
    case (Cons f rest)
    note step = AddDirsLoop_step [OF cut Cons.prems(1), of n rd out allFilesDirs f rest]
    show ?case
    proof (cases "IsDir f")
      case False
      with Cons.prems(2) step
      have "AddDirsLoop (Suc n) rd out False rest completePrefix prefixToCut parent
              = Some (dirs, b, None)" by simp
      from Cons.IH [OF Cons.prems(1) this] False show ?thesis
        by (simp add: listed_Cons_file)
    next
      case True
      let ?path = "parent @ Name f @ ''/''"
      from Cons.prems(1) have pp: "prefix completePrefix ?path"
        by (meson prefix_order.trans prefix_prefix prefix_order.refl)
      from True Cons.prems(2) step obtain sub where sub: "rd ?path = Inr sub"
        by (cases "rd ?path") auto
      from True Cons.prems(2) step sub obtain dirs1 b1 where
        r1: "AddDirsLoop n rd out True sub completePrefix prefixToCut ?path
               = Some (dirs1, b1, None)"
        and r2: "AddDirsLoop (Suc n) rd
                   (if \<not> b1 then dirs1 @ [drop (length prefixToCut) ?path] else dirs1)
                   allFilesDirs rest completePrefix prefixToCut parent = Some (dirs, b, None)"
        by (auto split: option.splits prod.splits)
      from outer [OF pp r1]
      have i1: "set dirs1 = set out \<union> listed rd prefixToCut ?path sub"
        and b1: "b1 = (\<forall>g\<in>set sub. IsDir g)" by simp_all
      from Cons.IH [OF Cons.prems(1) r2]
      have i2: "set dirs =
                  set (if \<not> b1 then dirs1 @ [drop (length prefixToCut) ?path] else dirs1)
                  \<union> listed rd prefixToCut parent rest"
        and b2: "b = (allFilesDirs \<and> (\<forall>f\<in>set rest. IsDir f))" by simp_all
      from i1 i2 b1 b2 True show ?thesis
        unfolding listed_Cons_dir [where f = f and parent = parent and rd = rd and sub = sub,
            OF True sub]
        by auto
    qed
  qed
qed

text \<open>A traversal that ends, with an error or without, returns no other prefixes.\<close>

lemma AddDirsLoop_sound:
  assumes cut: "prefix prefixToCut completePrefix"
  shows "prefix completePrefix parent \<Longrightarrow>
         AddDirsLoop n rd out allFilesDirs files completePrefix prefixToCut parent
           = Some (dirs, b, e) \<Longrightarrow>
         set dirs \<subseteq> set out \<union> listed rd prefixToCut parent files"
proof (induction n arbitrary: parent files out allFilesDirs dirs b e)
  case 0
  then show ?case by simp
next
  case (Suc n)
  note outer = Suc.IH
  from Suc.prems show ?case
  proof (induction files arbitrary: out allFilesDirs)
    case Nil
    then show ?case by auto
  next
    case (Cons f rest)
    note step = AddDirsLoop_step [OF cut Cons.prems(1), of n rd out allFilesDirs f rest]
    show ?case
    proof (cases "IsDir f")
      case False
      with Cons.prems(2) step
      have "AddDirsLoop (Suc n) rd out False rest completePrefix prefixToCut parent
              = Some (dirs, b, e)" by simp
      from Cons.IH [OF Cons.prems(1) this] False show ?thesis
        by (simp add: listed_Cons_file)
    next
      case True
      let ?path = "parent @ Name f @ ''/''"
      from Cons.prems(1) have pp: "prefix completePrefix ?path"
        by (meson prefix_order.trans prefix_prefix prefix_order.refl)
      show ?thesis
      proof (cases "rd ?path")
        case (Inl err)
        with True Cons.prems(2) step have "dirs = out" by simp
        then show ?thesis by auto
      next
        case (Inr sub)
        note L = listed_Cons_dir [where f = f and parent = parent and rd = rd and sub = sub,
            OF True Inr]
        from True Cons.prems(2) step Inr obtain dirs1 b1 e1 where
          r1: "AddDirsLoop n rd out True sub completePrefix prefixToCut ?path
                 = Some (dirs1, b1, e1)"
          by (auto split: option.splits prod.splits)
        from outer [OF pp r1]
        have i1: "set dirs1 \<subseteq> set out \<union> listed rd prefixToCut ?path sub" .
        show ?thesis
        proof (cases e1)
          case (Some err)
          with True Cons.prems(2) step Inr r1 have "dirs = dirs1" by simp
          with i1 show ?thesis unfolding L by auto
        next
          case None
          with True Cons.prems(2) step Inr r1 have
            r2: "AddDirsLoop (Suc n) rd
                   (if \<not> b1 then dirs1 @ [drop (length prefixToCut) ?path] else dirs1)
                   allFilesDirs rest completePrefix prefixToCut parent = Some (dirs, b, e)"
            by simp
          from AddDirsLoop_exact [OF cut pp r1 [unfolded None]]
          have b1: "b1 = (\<forall>g\<in>set sub. IsDir g)" by simp
          from Cons.IH [OF Cons.prems(1) r2]
          have i2: "set dirs \<subseteq>
                      set (if \<not> b1 then dirs1 @ [drop (length prefixToCut) ?path] else dirs1)
                      \<union> listed rd prefixToCut parent rest" .
          show ?thesis
          proof (cases b1)
            case True
            with i2 have "set dirs \<subseteq> set dirs1 \<union> listed rd prefixToCut parent rest" by simp
            with i1 show ?thesis unfolding L by blast
          next
            case False
            with i2 have "set dirs \<subseteq> insert (drop (length prefixToCut) ?path) (set dirs1)
                            \<union> listed rd prefixToCut parent rest"
              by (simp del: drop_append)
            moreover from b1 False have "\<exists>g\<in>set sub. \<not> IsDir g" by simp
            ultimately show ?thesis using i1 unfolding L by (simp del: drop_append) blast
          qed
        qed
      qed
    qed
  qed
qed

text \<open>A bound above the depth of the directories makes the traversal end.\<close>

lemma AddDirsLoop_total:
  assumes cut: "prefix prefixToCut completePrefix"
  shows "prefix completePrefix parent \<Longrightarrow> fuel_ok rd n parent files \<Longrightarrow>
         \<exists>r. AddDirsLoop n rd out allFilesDirs files completePrefix prefixToCut parent = Some r"
proof (induction n arbitrary: parent files out allFilesDirs)
  case 0
  then show ?case by simp
next
  case (Suc n)
  note outer = Suc.IH
  from Suc.prems show ?case
  proof (induction files arbitrary: out allFilesDirs)
    case Nil
    then show ?case by simp
  next
    case (Cons f rest)
    note step = AddDirsLoop_step [OF cut Cons.prems(1), of n rd out allFilesDirs f rest]
    from Cons.prems(2) have rest: "fuel_ok rd (Suc n) parent rest" by simp
    note IH = Cons.IH [OF Cons.prems(1) rest]
    show ?case
    proof (cases "IsDir f")
      case False
      with step IH show ?thesis by simp
    next
      case True
      let ?path = "parent @ Name f @ ''/''"
      from Cons.prems(1) have pp: "prefix completePrefix ?path"
        by (meson prefix_order.trans prefix_prefix prefix_order.refl)
      show ?thesis
      proof (cases "rd ?path")
        case (Inl err)
        with True step show ?thesis by simp
      next
        case (Inr sub)
        with True Cons.prems(2) have "fuel_ok rd n ?path sub" by simp
        from outer [OF pp this, of out True] obtain dirs1 b1 e1 where
          r1: "AddDirsLoop n rd out True sub completePrefix prefixToCut ?path
                 = Some (dirs1, b1, e1)"
          by (metis prod_cases3)
        show ?thesis
        proof (cases e1)
          case (Some err)
          with True step Inr r1 show ?thesis by simp
        next
          case None
          with True step Inr r1 IH show ?thesis by simp
        qed
      qed
    qed
  qed
qed

lemma root_cut: "prefix (bucketsDir w @ bucket @ ''/'') (commonPrefixesRoot w bucket pfx ''/'')"
  by (simp add: commonPrefixesRoot_def)

lemma native_run:
  assumes "ListCommonPrefixes n w c s bucket pfx ''/'' = Some (dirs, err)"
  shows "(\<exists>e. ReadDir c s (commonPrefixesRoot w bucket pfx ''/'') = Inl e \<and> dirs = []) \<or>
         (Connect c s \<noteq> None \<and> dirs = []) \<or>
         (\<exists>files b. ReadDir c s (commonPrefixesRoot w bucket pfx ''/'') = Inr files \<and>
            AddDirsLoop n (ReadDir c s) [] True files (commonPrefixesRoot w bucket pfx ''/'')
              (bucketsDir w @ bucket @ ''/'') (commonPrefixesRoot w bucket pfx ''/'')
              = Some (dirs, b, err))"
  using assms
  by (auto simp: ListCommonPrefixes_def AddDirsWithCommonPrefixes_def commonPrefixesRoot_def
      normalizedPrefix_def Let_def split: option.splits sum.splits if_splits prod.splits)

section \<open>Common prefixes with the delimiter \<open>/\<close>\<close>

lemma scenario_run:
  "ListCommonPrefixes (Suc (Suc n)) store_example (reader scenario_tree) () ''backups''
     ''my-app'' ''/'' = Some ([''my-app/cars/'', ''my-app/trains/''], None)"
  by (simp add: ListCommonPrefixes_def AddDirsWithCommonPrefixes_def store_example_def reader_def
      scenario_tree_def HasSuffix_def HasPrefix_def CutPrefix_def dir_entry_def file_entry_def
      suffix_to_prefix)

lemma scenario_root:
  "commonPrefixesRoot store_example ''backups'' ''my-app'' ''/'' = ''backups/backups/my-app/''"
  by (simp add: commonPrefixesRoot_def normalizedPrefix_def store_example_def HasSuffix_def
      suffix_to_prefix)

lemma scenario_cars_below:
  "below scenario_tree ''backups/backups/my-app/'' ''backups/backups/my-app/cars/''"
proof -
  have "descends scenario_tree ''backups/backups/my-app/''
          [dir_entry ''cars'', dir_entry ''trains'']
          (''backups/backups/my-app/'' @ Name (dir_entry ''cars'') @ ''/'')"
    by (rule descends.child) (simp_all add: dir_entry_def)
  then show ?thesis by (simp add: below_def scenario_tree_def dir_entry_def)
qed

lemma scenario_cars_object: "has_object scenario_tree ''backups/backups/my-app/cars/''"
  by (simp add: has_object_def scenario_tree_def file_entry_def)

lemma nested_run:
  "ListCommonPrefixes (Suc (Suc (Suc n))) store_plain (reader nested_tree) () ''b'' [] ''/''
     = Some ([''D/E/''], None)"
  by (simp add: ListCommonPrefixes_def AddDirsWithCommonPrefixes_def store_plain_def reader_def
      nested_tree_def HasSuffix_def HasPrefix_def CutPrefix_def dir_entry_def file_entry_def
      suffix_to_prefix)

text \<open>
  C1, as amended. With the delimiter \<open>/\<close>, when \<open>ListCommonPrefixes\<close> returns without
  error, a prefix is in the returned list if and only if it is the path, with the
  bucket part cut off, of a directory below the listing root whose own listing holds an
  entry that is no directory. The flag that a call of \<open>AddDirsWithCommonPrefixes\<close> on a
  listing returns is true exactly when every entry of that listing is a directory. In
  the loop of the parent, that flag alone decides whether the prefix of the directory
  is appended. A bound above the depth of the directories makes the operation return.
\<close>

theorem native_prefixes_by_direct_entries:
  "(ListCommonPrefixes n w c s bucket pfx ''/'' = Some (dirs, None) \<longrightarrow>
      (\<forall>x. x \<in> set dirs \<longleftrightarrow>
         (\<exists>p. below (ReadDir c s) (commonPrefixesRoot w bucket pfx ''/'') p \<and>
              has_object (ReadDir c s) p \<and>
              x = drop (length (bucketsDir w @ bucket @ ''/'')) p))) \<and>
   (prefix (commonPrefixesRoot w bucket pfx ''/'') parent \<and>
    AddDirsWithCommonPrefixes k (ReadDir c s) acc sub (commonPrefixesRoot w bucket pfx ''/'')
      (bucketsDir w @ bucket @ ''/'') parent = Some (out, b, None) \<longrightarrow>
      b = (\<forall>g\<in>set sub. IsDir g)) \<and>
   (prefix (commonPrefixesRoot w bucket pfx ''/'') parent \<and> IsDir f \<and>
    ReadDir c s (parent @ Name f @ ''/'') = Inr sub \<and>
    AddDirsWithCommonPrefixes k (ReadDir c s) acc sub (commonPrefixesRoot w bucket pfx ''/'')
      (bucketsDir w @ bucket @ ''/'') (parent @ Name f @ ''/'') = Some (out, b, None) \<longrightarrow>
      AddDirsLoop (Suc k) (ReadDir c s) acc allFilesDirs (f # rest)
        (commonPrefixesRoot w bucket pfx ''/'') (bucketsDir w @ bucket @ ''/'') parent =
      AddDirsLoop (Suc k) (ReadDir c s)
        (if b then out
         else out @ [drop (length (bucketsDir w @ bucket @ ''/'')) (parent @ Name f @ ''/'')])
        allFilesDirs rest
        (commonPrefixesRoot w bucket pfx ''/'') (bucketsDir w @ bucket @ ''/'') parent) \<and>
   (Connect c s = None \<and>
    ReadDir c s (commonPrefixesRoot w bucket pfx ''/'') = Inr files \<and>
    fuel_ok (ReadDir c s) n (commonPrefixesRoot w bucket pfx ''/'') files \<longrightarrow>
      (\<exists>r. ListCommonPrefixes n w c s bucket pfx ''/'' = Some r))"
proof -
  let ?rd = "ReadDir c s" and ?root = "commonPrefixesRoot w bucket pfx ''/''"
    and ?cut = "bucketsDir w @ bucket @ ''/''"
  have a: "x \<in> set dirs \<longleftrightarrow>
             (\<exists>p. below ?rd ?root p \<and> has_object ?rd p \<and> x = drop (length ?cut) p)"
    if run: "ListCommonPrefixes n w c s bucket pfx ''/'' = Some (dirs, None)" for x
  proof -
    from native_run [OF run] consider
      (missing) e where "?rd ?root = Inl e" "dirs = []"
      | (offline) "Connect c s \<noteq> None"
      | (walk) files b where "?rd ?root = Inr files"
          "AddDirsLoop n ?rd [] True files ?root ?cut ?root = Some (dirs, b, None)"
      by blast
    then show ?thesis
    proof cases
      case missing
      then show ?thesis by (simp add: below_def)
    next
      case offline
      with run show ?thesis by (auto simp: ListCommonPrefixes_def Let_def)
    next
      case walk
      from AddDirsLoop_exact [OF root_cut _ walk(2)]
      have "set dirs = listed ?rd ?cut ?root files" by simp
      with walk(1) show ?thesis by (auto simp: listed_def below_def)
    qed
  qed
  have b: "b = (\<forall>g\<in>set sub. IsDir g)"
    if "prefix ?root parent"
      "AddDirsWithCommonPrefixes k ?rd acc sub ?root ?cut parent = Some (out, b, None)"
    using AddDirsLoop_exact [OF root_cut that(1) that(2) [unfolded AddDirsWithCommonPrefixes_def]]
    by simp
  have c: "AddDirsLoop (Suc k) ?rd acc allFilesDirs (f # rest) ?root ?cut parent =
           AddDirsLoop (Suc k) ?rd
             (if b then out else out @ [drop (length ?cut) (parent @ Name f @ ''/'')])
             allFilesDirs rest ?root ?cut parent"
    if "prefix ?root parent" "IsDir f" "?rd (parent @ Name f @ ''/'') = Inr sub"
      "AddDirsWithCommonPrefixes k ?rd acc sub ?root ?cut (parent @ Name f @ ''/'')
         = Some (out, b, None)"
    using that(2-4) AddDirsLoop_step [OF root_cut that(1), of k ?rd acc allFilesDirs f rest]
    by (simp add: AddDirsWithCommonPrefixes_def)
  have d: "\<exists>r. ListCommonPrefixes n w c s bucket pfx ''/'' = Some r"
    if "Connect c s = None" "?rd ?root = Inr files" "fuel_ok ?rd n ?root files"
  proof -
    have "\<exists>r. AddDirsLoop n ?rd [] True files ?root ?cut ?root = Some r"
      by (rule AddDirsLoop_total [OF root_cut _ that(3)]) simp
    then obtain r where "AddDirsLoop n ?rd [] True files ?root ?cut ?root = Some r" ..
    with that(1,2) show ?thesis
      by (auto simp: ListCommonPrefixes_def AddDirsWithCommonPrefixes_def commonPrefixesRoot_def
          normalizedPrefix_def Let_def split: option.splits prod.splits)
  qed
  from a b c d show ?thesis by blast
qed

theorem native_prefixes_by_direct_entries_witness:
  "ListCommonPrefixes 2 store_example (reader scenario_tree) () ''backups'' ''my-app'' ''/''
     = Some ([''my-app/cars/'', ''my-app/trains/''], None) \<and>
   below (ReadDir (reader scenario_tree) ())
     (commonPrefixesRoot store_example ''backups'' ''my-app'' ''/'')
     ''backups/backups/my-app/cars/'' \<and>
   has_object (ReadDir (reader scenario_tree) ()) ''backups/backups/my-app/cars/'' \<and>
   ''my-app/cars/'' = drop (length (bucketsDir store_example @ ''backups'' @ ''/''))
                        ''backups/backups/my-app/cars/'' \<and>
   ''my-app/cars/'' \<in> set [''my-app/cars/'', ''my-app/trains/''] \<and>
   prefix (commonPrefixesRoot store_example ''backups'' ''my-app'' ''/'')
     ''backups/backups/my-app/cars/'' \<and>
   AddDirsWithCommonPrefixes 1 (ReadDir (reader scenario_tree) ()) [] [file_entry ''a'']
     (commonPrefixesRoot store_example ''backups'' ''my-app'' ''/'')
     (bucketsDir store_example @ ''backups'' @ ''/'') ''backups/backups/my-app/cars/''
     = Some ([], False, None) \<and>
   \<not> IsDir (file_entry ''a'') \<and>
   Connect (reader scenario_tree) () = None \<and>
   ReadDir (reader scenario_tree) () (commonPrefixesRoot store_example ''backups'' ''my-app'' ''/'')
     = Inr [dir_entry ''cars'', dir_entry ''trains''] \<and>
   fuel_ok (ReadDir (reader scenario_tree) ()) 2
     (commonPrefixesRoot store_example ''backups'' ''my-app'' ''/'')
     [dir_entry ''cars'', dir_entry ''trains''] \<and>
   (\<exists>r. ListCommonPrefixes 2 store_example (reader scenario_tree) () ''backups'' ''my-app'' ''/''
          = Some r)"
proof -
  have two: "2 = Suc (Suc 0)" by simp
  have run: "ListCommonPrefixes 2 store_example (reader scenario_tree) () ''backups'' ''my-app''
      ''/'' = Some ([''my-app/cars/'', ''my-app/trains/''], None)"
    unfolding two by (rule scenario_run)
  have rd: "ReadDir (reader scenario_tree) () = scenario_tree" by (simp add: reader_def)
  have bl: "below (ReadDir (reader scenario_tree) ())
     (commonPrefixesRoot store_example ''backups'' ''my-app'' ''/'')
     ''backups/backups/my-app/cars/''"
    unfolding rd scenario_root by (rule scenario_cars_below)
  have ho: "has_object (ReadDir (reader scenario_tree) ()) ''backups/backups/my-app/cars/''"
    unfolding rd by (rule scenario_cars_object)
  have cut: "''my-app/cars/'' = drop (length (bucketsDir store_example @ ''backups'' @ ''/''))
                        ''backups/backups/my-app/cars/''"
    by (simp add: store_example_def)
  have pr: "prefix (commonPrefixesRoot store_example ''backups'' ''my-app'' ''/'')
     ''backups/backups/my-app/cars/''"
    unfolding scenario_root by simp
  have fl: "AddDirsWithCommonPrefixes 1 (ReadDir (reader scenario_tree) ()) [] [file_entry ''a'']
     (commonPrefixesRoot store_example ''backups'' ''my-app'' ''/'')
     (bucketsDir store_example @ ''backups'' @ ''/'') ''backups/backups/my-app/cars/''
     = Some ([], False, None)"
    unfolding rd scenario_root
    by (simp add: AddDirsWithCommonPrefixes_def store_example_def HasPrefix_def CutPrefix_def
        file_entry_def)
  have cn: "Connect (reader scenario_tree) () = None" by (simp add: reader_def)
  have ls: "ReadDir (reader scenario_tree) ()
      (commonPrefixesRoot store_example ''backups'' ''my-app'' ''/'')
     = Inr [dir_entry ''cars'', dir_entry ''trains'']"
    unfolding rd scenario_root by (simp add: scenario_tree_def)
  have fu: "fuel_ok (ReadDir (reader scenario_tree) ()) 2
     (commonPrefixesRoot store_example ''backups'' ''my-app'' ''/'')
     [dir_entry ''cars'', dir_entry ''trains'']"
    unfolding rd scenario_root two
    by (simp add: scenario_tree_def dir_entry_def file_entry_def)
  note t = native_prefixes_by_direct_entries [where n = 2 and w = store_example
      and c = "reader scenario_tree" and s = "()" and bucket = "''backups''"
      and pfx = "''my-app''" and dirs = "[''my-app/cars/'', ''my-app/trains/'']"
      and parent = "''backups/backups/my-app/cars/''" and k = 1 and acc = "[]"
      and sub = "[file_entry ''a'']" and out = "[]" and b = False
      and files = "[dir_entry ''cars'', dir_entry ''trains'']"]
  from t run
  have "\<forall>x. x \<in> set [''my-app/cars/'', ''my-app/trains/''] \<longleftrightarrow>
         (\<exists>p. below (ReadDir (reader scenario_tree) ())
                (commonPrefixesRoot store_example ''backups'' ''my-app'' ''/'') p \<and>
              has_object (ReadDir (reader scenario_tree) ()) p \<and>
              x = drop (length (bucketsDir store_example @ ''backups'' @ ''/'')) p)"
    by blast
  with bl ho cut have mem: "''my-app/cars/'' \<in> set [''my-app/cars/'', ''my-app/trains/'']"
    by blast
  from t pr fl have "False = (\<forall>g\<in>set [file_entry ''a'']. IsDir g)" by blast
  then have nd: "\<not> IsDir (file_entry ''a'')" by simp
  from t cn ls fu
  have ex: "\<exists>r. ListCommonPrefixes 2 store_example (reader scenario_tree) () ''backups''
               ''my-app'' ''/'' = Some r"
    by blast
  from run bl ho cut mem pr fl nd cn ls fu ex show ?thesis by (simp only: simp_thms)
qed

text \<open>
  The claim as it was stated fails on the bucket \<open>b\<close> with the single object
  \<open>D/E/f\<close>: the directory \<open>D\<close> contains an object, in its subdirectory \<open>E\<close>, and its
  prefix is not returned; the call on the listing of \<open>D\<close> returns the flag true although
  a file lies beneath \<open>D\<close>.
\<close>

theorem transitive_inclusion_counterexample:
  "ListCommonPrefixes 3 store_plain (reader nested_tree) () ''b'' [] ''/''
     = Some ([''D/E/''], None) \<and>
   below nested_tree ''b/'' ''b/D/'' \<and>
   contains_object nested_tree ''b/D/'' \<and>
   ''D/'' \<notin> set [''D/E/''] \<and>
   AddDirsWithCommonPrefixes 2 nested_tree [] [dir_entry ''E''] ''b/'' ''b/'' ''b/D/''
     = Some ([''D/E/''], True, None)"
proof -
  have three: "3 = Suc (Suc (Suc 0))" by simp
  have two: "2 = Suc (Suc 0)" by simp
  have run: "ListCommonPrefixes 3 store_plain (reader nested_tree) () ''b'' [] ''/''
     = Some ([''D/E/''], None)"
    unfolding three by (rule nested_run)
  have "descends nested_tree ''b/'' [dir_entry ''D''] (''b/'' @ Name (dir_entry ''D'') @ ''/'')"
    by (rule descends.child) (simp_all add: dir_entry_def)
  then have bl: "below nested_tree ''b/'' ''b/D/''"
    by (simp add: below_def nested_tree_def dir_entry_def)
  have "contains_object nested_tree ''b/D/E/''"
    by (rule contains_object.direct [of _ _ "[file_entry ''f'']" "file_entry ''f''"])
      (simp_all add: nested_tree_def file_entry_def)
  then have "contains_object nested_tree (''b/D/'' @ Name (dir_entry ''E'') @ ''/'')"
    by (simp add: dir_entry_def)
  then have co: "contains_object nested_tree ''b/D/''"
    by (rule contains_object.nested [of _ _ "[dir_entry ''E'']" "dir_entry ''E''", rotated 3])
      (simp_all add: nested_tree_def dir_entry_def)
  have fl: "AddDirsWithCommonPrefixes 2 nested_tree [] [dir_entry ''E''] ''b/'' ''b/'' ''b/D/''
     = Some ([''D/E/''], True, None)"
    unfolding two
    by (simp add: AddDirsWithCommonPrefixes_def nested_tree_def HasPrefix_def CutPrefix_def
        dir_entry_def file_entry_def)
  have nm: "''D/'' \<notin> set [''D/E/'']" by simp
  from run bl co nm fl show ?thesis by (simp only: simp_thms)
qed

text \<open>
  C2. With the delimiter \<open>/\<close>, for every server, bucket and prefix, and whether the
  traversal ends with an error or without: every prefix in the list that
  \<open>ListCommonPrefixes\<close> returns names a directory below the listing root that contains
  an object, so it is never a directory beneath which all is directories.
\<close>

theorem returned_prefix_has_object:
  assumes "ListCommonPrefixes n w c s bucket pfx ''/'' = Some (dirs, err)"
    and "x \<in> set dirs"
  shows "below (ReadDir c s) (commonPrefixesRoot w bucket pfx ''/'')
           (bucketsDir w @ bucket @ ''/'' @ x) \<and>
         contains_object (ReadDir c s) (bucketsDir w @ bucket @ ''/'' @ x)"
proof -
  let ?rd = "ReadDir c s" and ?root = "commonPrefixesRoot w bucket pfx ''/''"
    and ?cut = "bucketsDir w @ bucket @ ''/''"
  from native_run [OF assms(1)] assms(2) obtain files b where
    files: "?rd ?root = Inr files"
    and run: "AddDirsLoop n ?rd [] True files ?root ?cut ?root = Some (dirs, b, err)"
    by auto
  from AddDirsLoop_sound [OF root_cut _ run] assms(2)
  have "x \<in> listed ?rd ?cut ?root files" by auto
  then obtain p where p: "descends ?rd ?root files p" "has_object ?rd p"
    "x = drop (length ?cut) p"
    by (auto simp: listed_def)
  from descends_prefix [OF p(1)] root_cut [of w bucket pfx] have "prefix ?cut p"
    by (meson prefix_order.trans)
  with p(3) have "?cut @ x = p" by (auto simp: prefix_def)
  with p files has_object_contains [OF p(2)] show ?thesis
    by (simp add: below_def)
qed

theorem returned_prefix_has_object_witness:
  "ListCommonPrefixes 2 store_example (reader scenario_tree) () ''backups'' ''my-app'' ''/''
     = Some ([''my-app/cars/'', ''my-app/trains/''], None) \<and>
   ''my-app/trains/'' \<in> set [''my-app/cars/'', ''my-app/trains/''] \<and>
   below (ReadDir (reader scenario_tree) ())
     (commonPrefixesRoot store_example ''backups'' ''my-app'' ''/'')
     ''backups/backups/my-app/trains/'' \<and>
   contains_object (ReadDir (reader scenario_tree) ()) ''backups/backups/my-app/trains/''"
proof -
  have two: "2 = Suc (Suc 0)" by simp
  have run: "ListCommonPrefixes 2 store_example (reader scenario_tree) () ''backups'' ''my-app''
      ''/'' = Some ([''my-app/cars/'', ''my-app/trains/''], None)"
    unfolding two by (rule scenario_run)
  have mem: "''my-app/trains/'' \<in> set [''my-app/cars/'', ''my-app/trains/'']" by simp
  have p: "bucketsDir store_example @ ''backups'' @ ''/'' @ ''my-app/trains/''
             = ''backups/backups/my-app/trains/''"
    by (simp add: store_example_def)
  from returned_prefix_has_object [OF run mem] run mem show ?thesis
    unfolding p by (simp only: simp_thms)
qed

text \<open>
  C3, as amended. The store has the buckets directory \<open>backups/\<close>, and the server
  holds the objects \<open>my-app/cars/a\<close> and \<open>my-app/trains/b\<close> of the bucket \<open>backups\<close>:
  it lists the directories \<open>cars\<close> and \<open>trains\<close> under \<open>my-app\<close>, in either order, and
  the file \<open>a\<close> alone in the first and \<open>b\<close> alone in the second. Whatever else the server
  holds, \<open>some-other-app/bridges/c\<close> included, \<open>ListCommonPrefixes\<close> for the bucket
  \<open>backups\<close>, the prefix \<open>my-app\<close> and the delimiter \<open>/\<close> returns without error, for
  every bound of at least two, the prefixes \<open>my-app/cars/\<close> and \<open>my-app/trains/\<close> and
  no other, each once, in the order in which the server lists the two directories.
\<close>

theorem scenario_prefixes_in_listing_order:
  assumes "Connect c s = None"
    and "ReadDir c s ''backups/backups/my-app/'' = Inr ents"
    and "ents = [dir_entry ''cars'', dir_entry ''trains''] \<or>
         ents = [dir_entry ''trains'', dir_entry ''cars'']"
    and "ReadDir c s ''backups/backups/my-app/cars/'' = Inr [file_entry ''a'']"
    and "ReadDir c s ''backups/backups/my-app/trains/'' = Inr [file_entry ''b'']"
  shows "ListCommonPrefixes (Suc (Suc n)) store_example c s ''backups'' ''my-app'' ''/''
           = Some (map (\<lambda>f. ''my-app/'' @ Name f @ ''/'') ents, None) \<and>
         set (map (\<lambda>f. ''my-app/'' @ Name f @ ''/'') ents)
           = {''my-app/cars/'', ''my-app/trains/''} \<and>
         distinct (map (\<lambda>f. ''my-app/'' @ Name f @ ''/'') ents)"
proof -
  from assms(3) show ?thesis
  proof
    assume e: "ents = [dir_entry ''cars'', dir_entry ''trains'']"
    from assms(1,2,4,5) show ?thesis unfolding e
      by (simp add: ListCommonPrefixes_def AddDirsWithCommonPrefixes_def store_example_def
          HasSuffix_def HasPrefix_def CutPrefix_def dir_entry_def file_entry_def
          suffix_to_prefix)
  next
    assume e: "ents = [dir_entry ''trains'', dir_entry ''cars'']"
    from assms(1,2,4,5) show ?thesis unfolding e
      by (simp add: ListCommonPrefixes_def AddDirsWithCommonPrefixes_def store_example_def
          HasSuffix_def HasPrefix_def CutPrefix_def dir_entry_def file_entry_def
          suffix_to_prefix insert_commute)
  qed
qed

theorem scenario_prefixes_in_listing_order_witness:
  "Connect (reader scenario_tree) () = None \<and>
   ReadDir (reader scenario_tree) () ''backups/backups/my-app/''
     = Inr [dir_entry ''cars'', dir_entry ''trains''] \<and>
   ReadDir (reader scenario_tree) () ''backups/backups/my-app/cars/'' = Inr [file_entry ''a''] \<and>
   ReadDir (reader scenario_tree) () ''backups/backups/my-app/trains/'' = Inr [file_entry ''b''] \<and>
   ListCommonPrefixes 2 store_example (reader scenario_tree) () ''backups'' ''my-app'' ''/''
     = Some ([''my-app/cars/'', ''my-app/trains/''], None) \<and>
   Connect (reader scenario_tree_swapped) () = None \<and>
   ReadDir (reader scenario_tree_swapped) () ''backups/backups/my-app/''
     = Inr [dir_entry ''trains'', dir_entry ''cars''] \<and>
   ReadDir (reader scenario_tree_swapped) () ''backups/backups/my-app/cars/''
     = Inr [file_entry ''a''] \<and>
   ReadDir (reader scenario_tree_swapped) () ''backups/backups/my-app/trains/''
     = Inr [file_entry ''b''] \<and>
   ListCommonPrefixes 2 store_example (reader scenario_tree_swapped) () ''backups'' ''my-app'' ''/''
     = Some ([''my-app/trains/'', ''my-app/cars/''], None)"
proof -
  have two: "2 = Suc (Suc 0)" by simp
  have c1: "Connect (reader scenario_tree) () = None" by (simp add: reader_def)
  have m1: "ReadDir (reader scenario_tree) () ''backups/backups/my-app/''
     = Inr [dir_entry ''cars'', dir_entry ''trains'']"
    by (simp add: reader_def scenario_tree_def)
  have a1: "ReadDir (reader scenario_tree) () ''backups/backups/my-app/cars/''
     = Inr [file_entry ''a'']"
    by (simp add: reader_def scenario_tree_def)
  have b1: "ReadDir (reader scenario_tree) () ''backups/backups/my-app/trains/''
     = Inr [file_entry ''b'']"
    by (simp add: reader_def scenario_tree_def)
  have c2: "Connect (reader scenario_tree_swapped) () = None" by (simp add: reader_def)
  have m2: "ReadDir (reader scenario_tree_swapped) () ''backups/backups/my-app/''
     = Inr [dir_entry ''trains'', dir_entry ''cars'']"
    by (simp add: reader_def scenario_tree_swapped_def)
  have a2: "ReadDir (reader scenario_tree_swapped) () ''backups/backups/my-app/cars/''
     = Inr [file_entry ''a'']"
    by (simp add: reader_def scenario_tree_swapped_def)
  have b2: "ReadDir (reader scenario_tree_swapped) () ''backups/backups/my-app/trains/''
     = Inr [file_entry ''b'']"
    by (simp add: reader_def scenario_tree_swapped_def)
  have o1: "[dir_entry ''cars'', dir_entry ''trains''] = [dir_entry ''cars'', dir_entry ''trains'']
            \<or> [dir_entry ''cars'', dir_entry ''trains''] = [dir_entry ''trains'', dir_entry ''cars'']"
    by simp
  have o2: "[dir_entry ''trains'', dir_entry ''cars''] = [dir_entry ''cars'', dir_entry ''trains'']
            \<or> [dir_entry ''trains'', dir_entry ''cars''] = [dir_entry ''trains'', dir_entry ''cars'']"
    by simp
  from scenario_prefixes_in_listing_order [OF c1 m1 o1 a1 b1, of 0]
  have r1: "ListCommonPrefixes 2 store_example (reader scenario_tree) () ''backups'' ''my-app''
      ''/'' = Some ([''my-app/cars/'', ''my-app/trains/''], None)"
    unfolding two by (simp add: dir_entry_def)
  from scenario_prefixes_in_listing_order [OF c2 m2 o2 a2 b2, of 0]
  have r2: "ListCommonPrefixes 2 store_example (reader scenario_tree_swapped) () ''backups''
      ''my-app'' ''/'' = Some ([''my-app/trains/'', ''my-app/cars/''], None)"
    unfolding two by (simp add: dir_entry_def)
  from c1 m1 a1 b1 r1 c2 m2 a2 b2 r2 show ?thesis by (simp only: simp_thms)
qed

text \<open>
  The claim as it was stated fails on a server that holds the same three objects and
  lists \<open>trains\<close> before \<open>cars\<close>: the operation returns \<open>my-app/trains/\<close> first.
\<close>

theorem scenario_order_counterexample:
  "ListCommonPrefixes 2 store_example (reader scenario_tree_swapped) () ''backups'' ''my-app'' ''/''
     = Some ([''my-app/trains/'', ''my-app/cars/''], None) \<and>
   [''my-app/trains/'', ''my-app/cars/''] \<noteq> [''my-app/cars/'', ''my-app/trains/'']"
proof -
  have two: "2 = Suc (Suc 0)" by simp
  have "ListCommonPrefixes 2 store_example (reader scenario_tree_swapped) () ''backups''
      ''my-app'' ''/'' = Some ([''my-app/trains/'', ''my-app/cars/''], None)"
    unfolding two
    by (simp add: ListCommonPrefixes_def AddDirsWithCommonPrefixes_def store_example_def
        reader_def scenario_tree_swapped_def HasSuffix_def HasPrefix_def CutPrefix_def
        dir_entry_def file_entry_def suffix_to_prefix)
  then show ?thesis by simp
qed

text \<open>With the delimiter \<open>/\<close> every returned prefix does end with the delimiter.\<close>

lemma descends_shape:
  "descends rd parent files p \<Longrightarrow> \<exists>q name. p = q @ name @ ''/'' \<and> prefix parent q"
proof (induction rule: descends.induct)
  case (child f files parent)
  then show ?case by blast
next
  case (deeper f files parent sub p)
  then obtain q name where "p = q @ name @ ''/''" "prefix (parent @ Name f @ ''/'') q"
    by blast
  moreover from this have "prefix parent q"
    by (meson prefix_order.trans prefix_prefix prefix_order.refl)
  ultimately show ?case by blast
qed

lemma native_prefix_ends_with_slash:
  assumes "ListCommonPrefixes n w c s bucket pfx ''/'' = Some (dirs, err)"
    and "x \<in> set dirs"
  shows "HasSuffix x ''/''"
proof -
  let ?rd = "ReadDir c s" and ?root = "commonPrefixesRoot w bucket pfx ''/''"
    and ?cut = "bucketsDir w @ bucket @ ''/''"
  from native_run [OF assms(1)] assms(2) obtain files b where
    run: "AddDirsLoop n ?rd [] True files ?root ?cut ?root = Some (dirs, b, err)"
    by auto
  from AddDirsLoop_sound [OF root_cut _ run] assms(2)
  have "x \<in> listed ?rd ?cut ?root files" by auto
  then obtain p where p: "descends ?rd ?root files p" "x = drop (length ?cut) p"
    by (auto simp: listed_def)
  from descends_shape [OF p(1)] obtain q name where q: "p = q @ name @ ''/''" "prefix ?root q"
    by blast
  from q(2) root_cut [of w bucket pfx] have "prefix ?cut q"
    by (meson prefix_order.trans)
  then have "length ?cut \<le> length q" by (rule prefix_length_le)
  with p(2) q(1) have "x = drop (length ?cut) q @ name @ ''/''" by simp
  then have "x = (drop (length ?cut) q @ name) @ ''/''" by simp
  then show ?thesis unfolding HasSuffix_def by (metis suffixI)
qed

section \<open>Listing objects\<close>

lemma ListObjectsLoop_map:
  "prefix prefixToCut path \<Longrightarrow>
   ListObjectsLoop w objects files path prefixToCut =
     objects @ map (\<lambda>f. drop (length prefixToCut) (path @ Name f @ delimiter w))
                 (filter (\<lambda>f. \<not> IsDir f) files)"
proof (induction files arbitrary: objects)
  case Nil
  then show ?case by simp
next
  case (Cons f rest)
  from Cons.prems have "prefix prefixToCut (path @ Name f @ delimiter w)"
    by (meson prefix_order.trans prefix_prefix prefix_order.refl)
  then have c: "CutPrefix (path @ Name f @ delimiter w) prefixToCut =
      (drop (length prefixToCut) (path @ Name f @ delimiter w), True)"
    by (simp add: CutPrefix_def)
  show ?case
    using Cons.IH [OF Cons.prems] c by (simp add: Let_def del: drop_append)
qed

lemma scenario_objects:
  "ListObjects store_example (reader scenario_tree) () ''backups'' ''my-app/cars''
     = ([''my-app/cars/a/''], None)"
  by (simp add: ListObjects_def store_example_def reader_def
      scenario_tree_def HasSuffix_def CutPrefix_def dir_entry_def file_entry_def
      suffix_to_prefix)

text \<open>
  What \<open>ListObjects\<close> returns when the connection is made and the directory of the
  bucket and the prefix is read: one key for each entry of that one listing that is no
  directory, in the order of the listing, and nothing else; no other directory is
  read. The key is built from the path of the entry followed by the delimiter.
\<close>

lemma ListObjects_result:
  assumes "Connect c s = None"
    and "ReadDir c s (objectsRoot w bucket pfx) = Inr files"
  shows "ListObjects w c s bucket pfx =
           (map (\<lambda>f. drop (length (bucketsDir w @ bucket @ delimiter w))
                        (objectsRoot w bucket pfx @ Name f @ delimiter w))
              (filter (\<lambda>f. \<not> IsDir f) files), None) \<and>
         (\<forall>f. drop (length (bucketsDir w @ bucket @ delimiter w))
                 (objectsRoot w bucket pfx @ Name f @ delimiter w) =
               normalizedPrefix pfx (delimiter w) @ Name f @ delimiter w)"
proof -
  have p: "prefix (bucketsDir w @ bucket @ delimiter w) (objectsRoot w bucket pfx)"
    by (simp add: objectsRoot_def)
  have e: "objectsRoot w bucket pfx @ x =
        (bucketsDir w @ bucket @ delimiter w) @ normalizedPrefix pfx (delimiter w) @ x" for x
    by (simp add: objectsRoot_def)
  have d: "drop (length (bucketsDir w @ bucket @ delimiter w)) (objectsRoot w bucket pfx @ x) =
      normalizedPrefix pfx (delimiter w) @ x" for x
    unfolding e by (rule append_eq_conv_conj [THEN iffD1, THEN conjunct2, symmetric]) (rule refl)
  from assms have run: "ListObjects w c s bucket pfx =
      (ListObjectsLoop w [] files (objectsRoot w bucket pfx) (bucketsDir w @ bucket @ delimiter w),
       None)"
    by (simp add: ListObjects_def objectsRoot_def normalizedPrefix_def Let_def)
  note loop = ListObjectsLoop_map [OF p, of w "[]" files, unfolded append_Nil]
  show ?thesis unfolding run loop by (intro conjI allI refl d)
qed

text \<open>
  C5. \<open>ListObjects\<close> should report each entry that is no directory and lies directly
  under the bucket and the prefix as its storage path with the buckets directory, the
  bucket and the delimiter cut off the front, and nothing added. For the object
  \<open>my-app/cars/a\<close> of the bucket \<open>backups\<close> that key is \<open>my-app/cars/a\<close>, and
  \<open>ListObjects\<close> returns \<open>my-app/cars/a/\<close>: the delimiter is put behind the name of the
  file. The storage path of the returned key is not the storage path of the object,
  so the key does not address the object in the other operations.
\<close>

theorem ListObjects_appends_delimiter:
  "ListObjects store_example (reader scenario_tree) () ''backups'' ''my-app/cars''
     = ([''my-app/cars/a/''], None) \<and>
   ListObjects_stripped store_example ''backups'' ''my-app/cars'' [file_entry ''a'']
     = [''my-app/cars/a''] \<and>
   fst (ListObjects store_example (reader scenario_tree) () ''backups'' ''my-app/cars'')
     \<noteq> ListObjects_stripped store_example ''backups'' ''my-app/cars'' [file_entry ''a''] \<and>
   objectPath store_example ''backups'' ''my-app/cars/a'' = ''backups/backups/my-app/cars/a'' \<and>
   objectPath store_example ''backups'' ''my-app/cars/a/'' = ''backups/backups/my-app/cars/a/'' \<and>
   objectPath store_example ''backups'' ''my-app/cars/a/''
     \<noteq> objectPath store_example ''backups'' ''my-app/cars/a''"
proof -
  have a: "ListObjects store_example (reader scenario_tree) () ''backups'' ''my-app/cars''
     = ([''my-app/cars/a/''], None)"
    by (rule scenario_objects)
  have b: "ListObjects_stripped store_example ''backups'' ''my-app/cars'' [file_entry ''a'']
     = [''my-app/cars/a'']"
    by (simp add: ListObjects_stripped_def file_entry_def objectsRoot_def
      normalizedPrefix_def store_example_def HasSuffix_def suffix_to_prefix)
  have p: "objectPath store_example ''backups'' ''my-app/cars/a'' = ''backups/backups/my-app/cars/a''"
    "objectPath store_example ''backups'' ''my-app/cars/a/'' = ''backups/backups/my-app/cars/a/''"
    by (simp_all add: objectPath_def store_example_def)
  show ?thesis unfolding a b p by simp
qed

end
